theory Spec2Isabelle
  imports Main "HOL-Library.Word"
begin

unbundle bit_operations_syntax

section \<open>Data model\<close>

text \<open>
  Modelled from the spec: the declarations of \<open>Datapoint\<close> and \<open>CbArg\<close> live in headers
  that are not among the sources. A datapoint is given the attributes that
  \<open>vitoconnect.cpp\<close> reads from it: the address of the object itself (from which the
  component id is derived), \<open>getAddress()\<close>, \<open>getLength()\<close>, \<open>getLastUpdate()\<close> and the
  bytes that \<open>encode()\<close> produces. A \<open>CbArg\<close> carries what its constructor is given at
  the call sites: the datapoint, the write flag, the modification stamp and the
  optional buffer of bytes kept for the verification of a write.
\<close>

record Datapoint =
  dp_ptr :: "32 word"
  dp_address :: "16 word"
  dp_length :: "8 word"
  dp_last_update :: "32 word"
  dp_encoded :: "8 word list"

record CbArg =
  cb_dp :: Datapoint
  cb_w :: bool
  cb_last_update :: "32 word"
  cb_d :: "8 word list option"

text \<open>
  \<open>struct QueuedRequest\<close>. The \<open>void*\<close> callback argument is an optional \<open>CbArg\<close>;
  \<open>None\<close> is the null pointer.
\<close>

record QueuedRequest =
  address :: "16 word"
  length_bytes :: "8 word"
  is_write :: bool
  callback_arg :: "CbArg option"
  component_type :: "8 word"
  enqueue_time :: "32 word"

definition matches :: "QueuedRequest \<Rightarrow> 16 word \<Rightarrow> bool \<Rightarrow> 8 word \<Rightarrow> bool" where
  "matches r addr write comp_type \<longleftrightarrow>
     address r = addr \<and> is_write r = write \<and> component_type r = comp_type"

text \<open>The private members of \<open>class SmartQueue\<close>.\<close>

record SmartQueue =
  write_queue :: "QueuedRequest list"
  read_queue :: "QueuedRequest list"
  has_current :: bool
  current_is_write :: bool
  last_comm_time :: "32 word"
  last_retry_time :: "32 word"

definition MAX_QUEUE_SIZE :: nat where
  "MAX_QUEUE_SIZE = 64"

definition INTER_COMM_DELAY_MS :: "32 word" where
  "INTER_COMM_DELAY_MS = 50"

definition REQUEST_TIMEOUT_MS :: "32 word" where
  "REQUEST_TIMEOUT_MS = 30000"

definition RETRY_DELAY_MS :: "32 word" where
  "RETRY_DELAY_MS = 50"

text \<open>The constructor \<open>SmartQueue()\<close>.\<close>

definition SmartQueue_init :: SmartQueue where
  "SmartQueue_init =
     \<lparr>write_queue = [], read_queue = [], has_current = False, current_is_write = False,
      last_comm_time = 0, last_retry_time = 0\<rparr>"

section \<open>The operations of the queue\<close>

text \<open>
  Every operation that calls \<open>millis()\<close> takes the value read from the clock as its
  first argument \<open>now\<close>, an unsigned 32-bit number of milliseconds; differences of
  time stamps wrap around as they do in the source.
\<close>

definition get_current_ptr :: "SmartQueue \<Rightarrow> QueuedRequest option" where
  "get_current_ptr q =
     (if \<not> has_current q then None
      else if current_is_write q
        then (case write_queue q of [] \<Rightarrow> None | r # _ \<Rightarrow> Some r)
        else (case read_queue q of [] \<Rightarrow> None | r # _ \<Rightarrow> Some r))"

definition has_pending :: "SmartQueue \<Rightarrow> 16 word \<Rightarrow> bool \<Rightarrow> 8 word \<Rightarrow> bool" where
  "has_pending q addr write comp_type =
     (let queue = (if write then write_queue q else read_queue q) in
      if \<exists>r \<in> set queue. matches r addr write comp_type then True
      else if has_current q \<and> current_is_write q = write
        then (case get_current_ptr q of
                None \<Rightarrow> False
              | Some r \<Rightarrow> matches r addr write comp_type)
        else False)"

definition size_sq :: "SmartQueue \<Rightarrow> nat" where
  "size_sq q = length (write_queue q) + length (read_queue q)"

definition write_count :: "SmartQueue \<Rightarrow> nat" where
  "write_count q = length (write_queue q)"

definition read_count :: "SmartQueue \<Rightarrow> nat" where
  "read_count q = length (read_queue q)"

definition is_empty :: "SmartQueue \<Rightarrow> bool" where
  "is_empty q \<longleftrightarrow> write_queue q = [] \<and> read_queue q = []"

text \<open>
  \<open>enqueue\<close> returns its boolean result together with the queue it leaves behind.
  A full queue gives \<open>False\<close>; a request merged as a duplicate and a request that is
  appended both give \<open>True\<close>.
\<close>

definition enqueue ::
  "32 word \<Rightarrow> SmartQueue \<Rightarrow> 16 word \<Rightarrow> 8 word \<Rightarrow> bool \<Rightarrow> CbArg option \<Rightarrow> 8 word
     \<Rightarrow> bool \<times> SmartQueue" where
  "enqueue now q addr len write arg comp_type =
     (if length (write_queue q) + length (read_queue q) \<ge> MAX_QUEUE_SIZE then (False, q)
      else if (write \<or> length (read_queue q) > 10) \<and> has_pending q addr write comp_type
        then (True, q)
      else
        (let req = \<lparr>address = addr, length_bytes = len, is_write = write,
                     callback_arg = arg, component_type = comp_type, enqueue_time = now\<rparr>
         in if write then (True, q\<lparr>write_queue := write_queue q @ [req]\<rparr>)
            else (True, q\<lparr>read_queue := read_queue q @ [req]\<rparr>)))"

definition retry_current :: "32 word \<Rightarrow> SmartQueue \<Rightarrow> SmartQueue" where
  "retry_current now q =
     (if \<not> has_current q then q
      else q\<lparr>last_retry_time := now, has_current := False\<rparr>)"

definition release_current :: "32 word \<Rightarrow> SmartQueue \<Rightarrow> SmartQueue" where
  "release_current now q =
     (if \<not> has_current q then q
      else
        (let q1 = q\<lparr>last_comm_time := now, last_retry_time := 0\<rparr>;
             q2 = (if current_is_write q1
                   then (if write_queue q1 \<noteq> [] then q1\<lparr>write_queue := tl (write_queue q1)\<rparr>
                         else q1)
                   else (if read_queue q1 \<noteq> [] then q1\<lparr>read_queue := tl (read_queue q1)\<rparr>
                         else q1))
         in q2\<lparr>has_current := False\<rparr>))"

text \<open>
  \<open>get_next\<close> returns the request its pointer refers to (or \<open>None\<close> for the null
  pointer) together with the queue it leaves behind.
\<close>

definition get_next :: "32 word \<Rightarrow> SmartQueue \<Rightarrow> QueuedRequest option \<times> SmartQueue" where
  "get_next now q =
     (if last_retry_time q > 0 \<and> now - last_retry_time q < RETRY_DELAY_MS then (None, q)
      else if \<not> has_current q \<and> now - last_comm_time q < INTER_COMM_DELAY_MS then (None, q)
      else if has_current q then
        (case get_current_ptr q of
           None \<Rightarrow> (None, q\<lparr>has_current := False, last_retry_time := 0\<rparr>)
         | Some current \<Rightarrow>
             if now - enqueue_time current > REQUEST_TIMEOUT_MS
             then (None, (release_current now q)\<lparr>last_retry_time := 0\<rparr>)
             else (Some current, q))
      else if write_queue q \<noteq> [] then
        (Some (hd (write_queue q)),
         q\<lparr>has_current := True, current_is_write := True, last_retry_time := 0\<rparr>)
      else if read_queue q \<noteq> [] then
        (Some (hd (read_queue q)),
         q\<lparr>has_current := True, current_is_write := False, last_retry_time := 0\<rparr>)
      else (None, q))"

text \<open>
  The lambda inside \<open>cleanup_stale\<close>: one pass over a queue that erases every element
  older than the timeout and steps over the others.
\<close>

fun cleanup :: "32 word \<Rightarrow> QueuedRequest list \<Rightarrow> QueuedRequest list" where
  "cleanup now [] = []"
| "cleanup now (r # rs) =
     (if now - enqueue_time r > REQUEST_TIMEOUT_MS then cleanup now rs
      else r # cleanup now rs)"

definition cleanup_stale :: "32 word \<Rightarrow> SmartQueue \<Rightarrow> SmartQueue" where
  "cleanup_stale now q =
     q\<lparr>write_queue := cleanup now (write_queue q),
       read_queue := cleanup now (read_queue q)\<rparr>"

section \<open>The producer step\<close>

text \<open>
  The members of \<open>VitoConnect\<close> that the periodic step touches: the registered
  datapoints, the queue, and the two function-local statics of \<open>update()\<close>.
\<close>

record VitoConnect =
  datapoints :: "Datapoint list"
  smart_queue :: SmartQueue
  cleanup_counter :: int
  last_datapoint_index :: nat

definition BATCH_SIZE :: nat where
  "BATCH_SIZE = 20"

text \<open>The component id: bits 4 to 11 of the address of the datapoint object.\<close>

definition comp_id :: "Datapoint \<Rightarrow> 8 word" where
  "comp_id dp = ucast (drop_bit 4 (dp_ptr dp) AND 0xFF)"

text \<open>The three ways in which \<open>update()\<close> constructs a \<open>CbArg\<close>.\<close>

definition write_arg :: "Datapoint \<Rightarrow> CbArg option" where
  "write_arg dp =
     Some \<lparr>cb_dp = dp, cb_w = True, cb_last_update = dp_last_update dp, cb_d = None\<rparr>"

definition verify_arg :: "Datapoint \<Rightarrow> CbArg option" where
  "verify_arg dp =
     Some \<lparr>cb_dp = dp, cb_w = False, cb_last_update = 0, cb_d = Some (dp_encoded dp)\<rparr>"

definition baseline_arg :: "Datapoint \<Rightarrow> CbArg option" where
  "baseline_arg dp = Some \<lparr>cb_dp = dp, cb_w = False, cb_last_update = 0, cb_d = None\<rparr>"

abbreviation enqueue_baseline :: "32 word \<Rightarrow> SmartQueue \<Rightarrow> Datapoint \<Rightarrow> bool \<times> SmartQueue" where
  "enqueue_baseline now q dp \<equiv>
     enqueue now q (dp_address dp) (dp_length dp) False (baseline_arg dp) (comp_id dp)"

text \<open>
  The first loop of \<open>update()\<close>: every modified datapoint is enqueued as a write and,
  when that succeeded, as a verification read. A step reads one value \<open>now\<close> from the
  millisecond clock.
\<close>

fun enqueue_writes :: "32 word \<Rightarrow> Datapoint list \<Rightarrow> SmartQueue \<Rightarrow> SmartQueue" where
  "enqueue_writes now [] q = q"
| "enqueue_writes now (dp # dps) q =
     (if dp_last_update dp \<noteq> 0 then
        (case enqueue now q (dp_address dp) (dp_length dp) True (write_arg dp) (comp_id dp) of
           (ok, q1) \<Rightarrow>
             if \<not> ok then enqueue_writes now dps q1
             else enqueue_writes now dps
                    (snd (enqueue now q1 (dp_address dp) (dp_length dp) False (verify_arg dp)
                            (comp_id dp))))
      else enqueue_writes now dps q)"

text \<open>
  The second loop of \<open>update()\<close>, from index \<open>i\<close> with \<open>datapoints_processed\<close>
  successful calls so far. The result is the queue and, when the loop left through the
  early return, the index saved for the next period.
\<close>

function enqueue_reads ::
  "32 word \<Rightarrow> Datapoint list \<Rightarrow> nat \<Rightarrow> nat \<Rightarrow> SmartQueue \<Rightarrow> SmartQueue \<times> nat option" where
  "enqueue_reads now dps i datapoints_processed q =
     (if i < length dps then
        (case enqueue_baseline now q (dps ! i) of
           (ok, q1) \<Rightarrow>
             if \<not> ok then enqueue_reads now dps (i + 1) datapoints_processed q1
             else if datapoints_processed + 1 \<ge> BATCH_SIZE then (q1, Some (i + 1))
             else enqueue_reads now dps (i + 1) (datapoints_processed + 1) q1)
      else (q, None))"
  by pat_completeness auto
termination
  by (relation "measure (\<lambda>(now, dps, i, p, q). length dps - i)") auto

declare enqueue_reads.simps [simp del]

definition update :: "32 word \<Rightarrow> VitoConnect \<Rightarrow> VitoConnect" where
  "update now v =
     (let q1 = enqueue_writes now (datapoints v) (smart_queue v) in
      case enqueue_reads now (datapoints v) (last_datapoint_index v) 0 q1 of
        (q2, Some next_index) \<Rightarrow> v\<lparr>smart_queue := q2, last_datapoint_index := next_index\<rparr>
      | (q2, None) \<Rightarrow>
          if cleanup_counter v + 1 \<ge> 10
          then v\<lparr>smart_queue := cleanup_stale now q2, cleanup_counter := 0,
                 last_datapoint_index := 0\<rparr>
          else v\<lparr>smart_queue := q2, cleanup_counter := cleanup_counter v + 1,
                 last_datapoint_index := 0\<rparr>)"

text \<open>
  The specification's reading of a batch, for comparison with \<open>enqueue_reads\<close>: a
  baseline read is enqueued for each point of a list, in order, and the results of
  the calls are collected.
\<close>

fun spec_baseline_reads ::
  "32 word \<Rightarrow> Datapoint list \<Rightarrow> SmartQueue \<Rightarrow> bool list \<times> SmartQueue" where
  "spec_baseline_reads now [] q = ([], q)"
| "spec_baseline_reads now (dp # dps) q =
     (case enqueue_baseline now q dp of
        (ok, q1) \<Rightarrow> (case spec_baseline_reads now dps q1 of (oks, q2) \<Rightarrow> (ok # oks, q2)))"

section \<open>The dispatcher step\<close>

text \<open>
  Modelled from the spec: the class \<open>Optolink\<close> is not among the sources. The
  transport is a state of any type \<open>'t\<close> with the five operations that \<open>loop()\<close>
  calls on it; \<open>ol_write\<close> and \<open>ol_read\<close> return whether the transport accepted the
  operation, and its new state.
\<close>

record 't Optolink =
  ol_loop :: "'t \<Rightarrow> 't"
  ol_is_ready :: "'t \<Rightarrow> bool"
  ol_queue_size :: "'t \<Rightarrow> nat"
  ol_write :: "'t \<Rightarrow> 16 word \<Rightarrow> 8 word \<Rightarrow> 8 word list \<Rightarrow> CbArg \<Rightarrow> bool \<times> 't"
  ol_read :: "'t \<Rightarrow> 16 word \<Rightarrow> 8 word \<Rightarrow> CbArg \<Rightarrow> bool \<times> 't"

definition OPTOLINK_MAX :: nat where
  "OPTOLINK_MAX = 64"

text \<open>
  \<open>VitoConnect::loop()\<close>. The comparison \<open>queue_size() > OPTOLINK_MAX * 0.8\<close> is
  written with both sides multiplied by ten.
\<close>

definition loop :: "'t Optolink \<Rightarrow> 32 word \<Rightarrow> 't \<times> VitoConnect \<Rightarrow> 't \<times> VitoConnect" where
  "loop ol now s =
     (case s of (t, v) \<Rightarrow>
        let t1 = ol_loop ol t in
        if \<not> ol_is_ready ol t1
        then (t1, v\<lparr>smart_queue := retry_current now (smart_queue v)\<rparr>)
        else
          (case get_next now (smart_queue v) of
             (None, q1) \<Rightarrow> (t1, v\<lparr>smart_queue := q1\<rparr>)
           | (Some req, q1) \<Rightarrow>
               (case callback_arg req of
                  None \<Rightarrow> (t1, v\<lparr>smart_queue := release_current now q1\<rparr>)
                | Some cbArg \<Rightarrow>
                    if 10 * ol_queue_size ol t1 > OPTOLINK_MAX * 8
                    then (t1, v\<lparr>smart_queue := retry_current now q1\<rparr>)
                    else if is_write req then
                      (case ol_write ol t1 (address req) (length_bytes req)
                              (dp_encoded (cb_dp cbArg)) cbArg of
                         (success, t2) \<Rightarrow>
                           if \<not> success
                           then (t2, v\<lparr>smart_queue := retry_current now q1\<rparr>)
                           else (t2, v\<lparr>smart_queue := q1\<rparr>))
                    else
                      (case ol_read ol t1 (address req) (length_bytes req) cbArg of
                         (success, t2) \<Rightarrow>
                           if \<not> success
                           then (t2, v\<lparr>smart_queue := retry_current now q1\<rparr>)
                           else (t2, v\<lparr>smart_queue := q1\<rparr>)))))"

section \<open>Reachable queues\<close>

text \<open>
  The queues that the public operations can produce from a freshly constructed one,
  with any arguments and any readings of the clock.
\<close>

inductive reachable :: "SmartQueue \<Rightarrow> bool" where
  r_init: "reachable SmartQueue_init"
| r_enqueue: "reachable q \<Longrightarrow> reachable (snd (enqueue now q addr len write arg comp_type))"
| r_get_next: "reachable q \<Longrightarrow> reachable (snd (get_next now q))"
| r_retry: "reachable q \<Longrightarrow> reachable (retry_current now q)"
| r_release: "reachable q \<Longrightarrow> reachable (release_current now q)"
| r_cleanup: "reachable q \<Longrightarrow> reachable (cleanup_stale now q)"

text \<open>The triple that \<open>matches\<close> compares.\<close>

definition req_key :: "QueuedRequest \<Rightarrow> 16 word \<times> bool \<times> 8 word" where
  "req_key r = (address r, is_write r, component_type r)"

definition queue_inv :: "SmartQueue \<Rightarrow> bool" where
  "queue_inv q \<longleftrightarrow>
     (has_current q \<longrightarrow> last_retry_time q = 0) \<and>
     (\<forall>r \<in> set (write_queue q). is_write r) \<and>
     (\<forall>r \<in> set (read_queue q). \<not> is_write r) \<and>
     distinct (map req_key (write_queue q))"

section \<open>Concrete scenarios\<close>

definition example_dp :: "16 word \<Rightarrow> Datapoint" where
  "example_dp a =
     \<lparr>dp_ptr = 0x3FFB0000, dp_address = a, dp_length = 2, dp_last_update = 0,
      dp_encoded = [0, 0]\<rparr>"

definition example_read :: "16 word \<Rightarrow> 8 word \<Rightarrow> 32 word \<Rightarrow> QueuedRequest" where
  "example_read a c t =
     \<lparr>address = a, length_bytes = 2, is_write = False,
      callback_arg = baseline_arg (example_dp a), component_type = c, enqueue_time = t\<rparr>"

definition example_write :: "16 word \<Rightarrow> 8 word \<Rightarrow> 32 word \<Rightarrow> QueuedRequest" where
  "example_write a c t =
     \<lparr>address = a, length_bytes = 2, is_write = True,
      callback_arg = write_arg (example_dp a), component_type = c, enqueue_time = t\<rparr>"

definition enq_read :: "32 word \<Rightarrow> 16 word \<Rightarrow> 8 word \<Rightarrow> SmartQueue \<Rightarrow> SmartQueue" where
  "enq_read t a c q = snd (enqueue t q a 2 False (baseline_arg (example_dp a)) c)"

definition enq_write :: "32 word \<Rightarrow> 16 word \<Rightarrow> 8 word \<Rightarrow> SmartQueue \<Rightarrow> SmartQueue" where
  "enq_write t a c q = snd (enqueue t q a 2 True (write_arg (example_dp a)) c)"

text \<open>The same read enqueued twice on a fresh queue.\<close>

definition twice_read :: SmartQueue where
  "twice_read = enq_read 10 0x3306 7 (enq_read 10 0x3306 7 SmartQueue_init)"

text \<open>One write enqueued on a fresh queue.\<close>

definition one_write :: SmartQueue where
  "one_write = enq_write 10 0x2323 3 SmartQueue_init"

text \<open>A read is selected, then a write arrives while the read is in flight.\<close>

definition read_in_flight :: SmartQueue where
  "read_in_flight =
     enq_write 110 0x2323 3 (snd (get_next 100 (enq_read 100 0x3306 7 SmartQueue_init)))"

text \<open>A write and a read are waiting and nothing is selected.\<close>

definition both_waiting :: SmartQueue where
  "both_waiting = enq_read 100 0x3306 7 (enq_write 100 0x2323 3 SmartQueue_init)"

text \<open>A queue filled with 64 reads.\<close>

definition full_queue :: SmartQueue where
  "full_queue = SmartQueue_init\<lparr>read_queue := replicate 64 (example_read 0x0800 1 0)\<rparr>"

text \<open>A read that waits, and the same read after it has been selected.\<close>

definition waiting_read :: SmartQueue where
  "waiting_read = enq_read 1000 0x0800 1 SmartQueue_init"

definition selected_read :: SmartQueue where
  "selected_read = snd (get_next 1000 (enq_read 1000 0x0800 1 SmartQueue_init))"

text \<open>Two reads that wait, enqueued at different times.\<close>

definition two_waiting :: SmartQueue where
  "two_waiting = enq_read 20000 0x0802 2 (enq_read 1000 0x0800 1 SmartQueue_init)"

text \<open>
  Shortly before the 32-bit clock wraps: two reads are enqueued, the first is selected
  and released, the second is selected 100 ms before the clock returns to 0.
\<close>

definition before_wrap :: SmartQueue where
  "before_wrap =
     snd (get_next 4294967196
       (release_current 4294966796
         (snd (get_next 4294966296
           (enq_read 4294966296 0x0802 2 (enq_read 4294966296 0x0800 1 SmartQueue_init))))))"

text \<open>One read was released at time 5000 and another one still waits.\<close>

definition just_released :: SmartQueue where
  "just_released =
     release_current 5000
       (snd (get_next 1000 (enq_read 1000 0x0802 2 (enq_read 1000 0x0800 1 SmartQueue_init))))"

text \<open>35 registered datapoints, none of them modified, and a fresh component.\<close>

definition points35 :: "Datapoint list" where
  "points35 =
     map (\<lambda>k. \<lparr>dp_ptr = 0x3FFB0000 + 32 * of_nat k, dp_address = 0x0800 + 2 * of_nat k,
               dp_length = 2, dp_last_update = 0, dp_encoded = [0, 0]\<rparr>) [0 ..< 35]"

definition fresh35 :: VitoConnect where
  "fresh35 =
     \<lparr>datapoints = points35, smart_queue = SmartQueue_init, cleanup_counter = 0,
      last_datapoint_index = 0\<rparr>"

text \<open>
  A fresh component with the same 35 points, all of them modified, and one in which
  only the points 0 to 19 are modified.
\<close>

definition all_modified35 :: VitoConnect where
  "all_modified35 =
     \<lparr>datapoints =
        map (\<lambda>k. \<lparr>dp_ptr = 0x3FFB0000 + 32 * of_nat k, dp_address = 0x0800 + 2 * of_nat k,
                  dp_length = 2, dp_last_update = 1, dp_encoded = [1, 0]\<rparr>) [0 ..< 35],
      smart_queue = SmartQueue_init, cleanup_counter = 0, last_datapoint_index = 0\<rparr>"

definition first20_modified35 :: VitoConnect where
  "first20_modified35 =
     \<lparr>datapoints =
        map (\<lambda>k. \<lparr>dp_ptr = 0x3FFB0000 + 32 * of_nat k, dp_address = 0x0800 + 2 * of_nat k,
                  dp_length = 2, dp_last_update = (if k < 20 then 1 else 0),
                  dp_encoded = [1, 0]\<rparr>) [0 ..< 35],
      smart_queue = SmartQueue_init, cleanup_counter = 0, last_datapoint_index = 0\<rparr>"

text \<open>
  A transport that is always ready and accepts everything; its state counts the
  operations pushed to it. A component whose queue holds one read without a callback
  argument.
\<close>

definition ready_transport :: "nat Optolink" where
  "ready_transport =
     \<lparr>ol_loop = (\<lambda>t. t), ol_is_ready = (\<lambda>t. True), ol_queue_size = (\<lambda>t. t),
      ol_write = (\<lambda>t a l d c. (True, Suc t)), ol_read = (\<lambda>t a l c. (True, Suc t))\<rparr>"

definition null_request :: QueuedRequest where
  "null_request =
     \<lparr>address = 0x0800, length_bytes = 2, is_write = False, callback_arg = None,
      component_type = 1, enqueue_time = 1000\<rparr>"

definition null_context :: VitoConnect where
  "null_context =
     \<lparr>datapoints = [], smart_queue = snd (enqueue 1000 SmartQueue_init 0x0800 2 False None 1),
      cleanup_counter = 0, last_datapoint_index = 0\<rparr>"

section \<open>Auxiliary facts\<close>

lemmas eval_defs = enqueue_def get_next_def retry_current_def release_current_def
  cleanup_stale_def has_pending_def get_current_ptr_def matches_def SmartQueue_init_def
  MAX_QUEUE_SIZE_def INTER_COMM_DELAY_MS_def REQUEST_TIMEOUT_MS_def RETRY_DELAY_MS_def
  enq_read_def enq_write_def example_read_def example_write_def Let_def size_sq_def

lemma cleanup_filter:
  "cleanup now xs = filter (\<lambda>r. now - enqueue_time r \<le> REQUEST_TIMEOUT_MS) xs"
  by (induction xs) (auto simp: not_less)

lemma has_pending_iff:
  "has_pending q a w c \<longleftrightarrow>
     (\<exists>r \<in> set (if w then write_queue q else read_queue q). matches r a w c)"
  by (auto simp: has_pending_def get_current_ptr_def Let_def split: list.splits)

subsection \<open>An invariant of the reachable queues\<close>

lemma inv_init: "queue_inv SmartQueue_init"
  by (simp add: queue_inv_def SmartQueue_init_def)

lemma inv_enqueue: "queue_inv q \<Longrightarrow> queue_inv (snd (enqueue now q a l w arg c))"
  by (auto simp: queue_inv_def enqueue_def has_pending_iff matches_def req_key_def Let_def)

lemma inv_release: "queue_inv q \<Longrightarrow> queue_inv (release_current now q)"
  by (auto simp: queue_inv_def release_current_def Let_def map_tl distinct_tl
           dest: list.set_sel(2))

lemma inv_retry: "queue_inv q \<Longrightarrow> queue_inv (retry_current now q)"
  by (auto simp: queue_inv_def retry_current_def)

lemma inv_cleanup: "queue_inv q \<Longrightarrow> queue_inv (cleanup_stale now q)"
  by (auto simp: queue_inv_def cleanup_stale_def cleanup_filter distinct_map_filter)

lemma inv_get_next: "queue_inv q \<Longrightarrow> queue_inv (snd (get_next now q))"
  using inv_release [of q now]
  by (auto simp: queue_inv_def get_next_def split: option.splits)

lemma reachable_inv: "reachable q \<Longrightarrow> queue_inv q"
  by (induction rule: reachable.induct)
     (simp_all add: inv_init inv_enqueue inv_get_next inv_retry inv_release inv_cleanup)

subsection \<open>What a call of enqueue and of get_next leaves behind\<close>

lemma enqueue_room:
  assumes "size_sq q < 64"
  shows "fst (enqueue now q a l w arg c) \<and>
         size_sq (snd (enqueue now q a l w arg c)) \<le> size_sq q + 1"
  using assms by (auto simp: enqueue_def size_sq_def MAX_QUEUE_SIZE_def Let_def)

lemma enqueue_leaves_pending:
  assumes "enqueue t q a l w arg c = (r1, q1)" and "size_sq q1 < 64"
  shows "r1 \<and> has_pending q1 a w c \<and> size_sq q1 \<le> size_sq q + 1"
  using assms
  by (auto simp: enqueue_def has_pending_iff matches_def size_sq_def MAX_QUEUE_SIZE_def Let_def
           split: if_splits)

lemma get_next_Some:
  assumes "get_next now q = (Some r, q1)"
  shows "has_current q1 \<and> write_queue q1 = write_queue q \<and> read_queue q1 = read_queue q \<and>
         last_comm_time q1 = last_comm_time q \<and>
         (if current_is_write q1 then write_queue q \<noteq> [] \<and> r = hd (write_queue q)
          else read_queue q \<noteq> [] \<and> r = hd (read_queue q))"
  using assms
  by (auto simp: get_next_def get_current_ptr_def split: if_splits option.splits list.splits)

lemma retry_throttle_nonzero:
  assumes "has_current q" and "t \<noteq> 0" and "now - t < 50"
  shows "get_next now (retry_current t q) = (None, retry_current t q)"
  using assms
  by (simp add: get_next_def retry_current_def RETRY_DELAY_MS_def word_gt_0)

lemma age_no_wrap:
  fixes now t :: "32 word"
  assumes "unat t \<le> unat now"
  shows "now - t \<le> 30000 \<longleftrightarrow> unat now \<le> unat t + 30000"
proof -
  from assms have "t \<le> now" by (simp add: word_le_nat_alt)
  then have "unat (now - t) = unat now - unat t" by (rule unat_sub)
  then show ?thesis using assms by (auto simp: word_le_nat_alt)
qed

subsection \<open>The batch loop\<close>

lemma enqueue_writes_idle:
  "\<forall>dp \<in> set dps. dp_last_update dp = 0 \<Longrightarrow> enqueue_writes now dps q = q"
  by (induction dps) simp_all

lemma spec_baseline_reads_room:
  "size_sq q + length dps \<le> 64 \<Longrightarrow>
   fst (spec_baseline_reads now dps q) = replicate (length dps) True \<and>
   size_sq (snd (spec_baseline_reads now dps q)) \<le> size_sq q + length dps"
proof (induction dps arbitrary: q)
  case Nil
  then show ?case by simp
next
  case (Cons dp dps)
  let ?e = "enqueue_baseline now q dp"
  from Cons.prems have "size_sq q < 64" by simp
  then have e: "fst ?e" "size_sq (snd ?e) \<le> size_sq q + 1"
    using enqueue_room by blast+
  with Cons.prems have "size_sq (snd ?e) + length dps \<le> 64" by simp
  from Cons.IH [OF this] e show ?case
    by (auto simp: split_beta)
qed

lemma enqueue_reads_step:
  assumes "i < length dps" and "fst (enqueue_baseline now q (dps ! i))"
  shows "enqueue_reads now dps i p q =
           (if p + 1 \<ge> BATCH_SIZE then (snd (enqueue_baseline now q (dps ! i)), Some (i + 1))
            else enqueue_reads now dps (i + 1) (p + 1) (snd (enqueue_baseline now q (dps ! i))))"
  using assms by (subst enqueue_reads.simps) (simp add: split_beta)

lemma enqueue_reads_end:
  "length dps \<le> i \<Longrightarrow> enqueue_reads now dps i p q = (q, None)"
  by (subst enqueue_reads.simps) simp

text \<open>
  With room in the queue for the \<open>k\<close> calls that complete the batch, the loop makes
  exactly these calls and leaves through the early return.
\<close>

lemma enqueue_reads_batch:
  "p + k = BATCH_SIZE \<Longrightarrow> 0 < k \<Longrightarrow> i + k \<le> length dps \<Longrightarrow> size_sq q + k \<le> 64 \<Longrightarrow>
   enqueue_reads now dps i p q =
     (snd (spec_baseline_reads now (map ((!) dps) [i ..< i + k]) q), Some (i + k))"
proof (induction k arbitrary: i p q)
  case 0
  then show ?case by simp
next
  case (Suc k)
  let ?e = "enqueue_baseline now q (dps ! i)"
  from Suc.prems have "size_sq q < 64" by simp
  then have e: "fst ?e" "size_sq (snd ?e) \<le> size_sq q + 1"
    using enqueue_room by blast+
  from Suc.prems have i: "i < length dps" by simp
  have up: "[i ..< i + Suc k] = i # [i + 1 ..< i + 1 + k]"
    by (simp add: upt_rec)
  have step: "enqueue_reads now dps i p q =
           (if p + 1 \<ge> BATCH_SIZE then (snd ?e, Some (i + 1))
            else enqueue_reads now dps (i + 1) (p + 1) (snd ?e))"
    using i e(1) by (rule enqueue_reads_step)
  show ?case
  proof (cases "k = 0")
    case True
    with Suc.prems(1) have "p + 1 \<ge> BATCH_SIZE" by simp
    with step True show ?thesis by (simp add: split_beta)
  next
    case False
    with Suc.prems(1) have lt: "\<not> p + 1 \<ge> BATCH_SIZE" by simp
    have "enqueue_reads now dps (i + 1) (p + 1) (snd ?e) =
            (snd (spec_baseline_reads now (map ((!) dps) [i + 1 ..< i + 1 + k]) (snd ?e)),
             Some (i + 1 + k))"
      using Suc.prems e False by (intro Suc.IH) simp_all
    moreover have "snd (spec_baseline_reads now (map ((!) dps) [i ..< i + Suc k]) q) =
        snd (spec_baseline_reads now (map ((!) dps) [i + 1 ..< i + 1 + k]) (snd ?e))"
      by (subst up) (simp add: split_beta del: upt_rec_numeral)
    ultimately show ?thesis
      using step lt by simp
  qed
qed

text \<open>
  When the list ends before the batch is complete, the loop makes the calls for the
  rest of the list and falls through.
\<close>

lemma enqueue_reads_tail:
  "length dps = i + k \<Longrightarrow> p + k < BATCH_SIZE \<Longrightarrow> size_sq q + k \<le> 64 \<Longrightarrow>
   enqueue_reads now dps i p q = (snd (spec_baseline_reads now (drop i dps) q), None)"
proof (induction k arbitrary: i p q)
  case 0
  then show ?case by (simp add: enqueue_reads_end)
next
  case (Suc k)
  let ?e = "enqueue_baseline now q (dps ! i)"
  from Suc.prems have "size_sq q < 64" by simp
  then have e: "fst ?e" "size_sq (snd ?e) \<le> size_sq q + 1"
    using enqueue_room by blast+
  from Suc.prems have i: "i < length dps" by simp
  then have d: "drop i dps = dps ! i # drop (i + 1) dps"
    by (simp add: Cons_nth_drop_Suc)
  have step: "enqueue_reads now dps i p q =
           (if p + 1 \<ge> BATCH_SIZE then (snd ?e, Some (i + 1))
            else enqueue_reads now dps (i + 1) (p + 1) (snd ?e))"
    using i e(1) by (rule enqueue_reads_step)
  from Suc.prems have lt: "\<not> p + 1 \<ge> BATCH_SIZE" by simp
  have "enqueue_reads now dps (i + 1) (p + 1) (snd ?e) =
          (snd (spec_baseline_reads now (drop (i + 1) dps) (snd ?e)), None)"
    using Suc.prems e by (intro Suc.IH) simp_all
  with step lt show ?case
    by (simp add: d split_beta)
qed

section \<open>Deduplication\<close>

text \<open>
  Claim C1, as amended. In every reachable queue the write class holds at most one
  operation for each triple of address, kind and owner tag, and each class holds only
  operations of its own kind; the operation in flight is the front element of its
  class and not a further copy. When the same triple is enqueued twice in a row, and
  before the second call the queue holds fewer than 64 operations and the operation
  is a write or the read class holds more than 10 elements, then both calls return
  true, the second call leaves the queue as it is, and the total size has grown by at
  most 1.
\<close>

theorem write_dedup:
  assumes "reachable q"
    and "enqueue t1 q a l1 w arg1 c = (r1, q1)"
    and "enqueue t2 q1 a l2 w arg2 c = (r2, q2)"
  shows "distinct (map req_key (write_queue q)) \<and>
         (\<forall>r \<in> set (write_queue q). is_write r) \<and>
         (\<forall>r \<in> set (read_queue q). \<not> is_write r) \<and>
         ((w \<or> length (read_queue q1) > 10) \<and> size_sq q1 < 64 \<longrightarrow>
            r1 \<and> r2 \<and> q2 = q1 \<and> size_sq q2 \<le> size_sq q + 1)"
proof -
  from assms(1) have "queue_inv q" by (rule reachable_inv)
  then have inv: "distinct (map req_key (write_queue q))"
      "\<forall>r \<in> set (write_queue q). is_write r" "\<forall>r \<in> set (read_queue q). \<not> is_write r"
    by (simp_all add: queue_inv_def)
  have "r1 \<and> r2 \<and> q2 = q1 \<and> size_sq q2 \<le> size_sq q + 1"
    if d: "w \<or> length (read_queue q1) > 10" and s: "size_sq q1 < 64"
  proof -
    from assms(2) s have p: "r1" "has_pending q1 a w c" "size_sq q1 \<le> size_sq q + 1"
      using enqueue_leaves_pending by blast+
    from assms(3) d s p(2) have "r2 \<and> q2 = q1"
      by (auto simp: enqueue_def size_sq_def MAX_QUEUE_SIZE_def)
    with p show ?thesis by simp
  qed
  with inv show ?thesis by blast
qed

text \<open>
  The theorem at a fresh queue: a write for address 0x2323 is enqueued at time 10 and
  again at time 20; the queue holds one write afterwards.
\<close>

theorem write_dedup_witness:
  "reachable SmartQueue_init \<and>
   enqueue 10 SmartQueue_init 0x2323 2 True (write_arg (example_dp 0x2323)) 3 = (True, one_write) \<and>
   enqueue 20 one_write 0x2323 2 True (write_arg (example_dp 0x2323)) 3 = (True, one_write) \<and>
   size_sq one_write < 64 \<and>
   size_sq one_write \<le> size_sq SmartQueue_init + 1 \<and>
   write_queue one_write = [example_write 0x2323 3 10] \<and>
   distinct (map req_key (write_queue SmartQueue_init))"
proof -
  have r: "reachable SmartQueue_init" by (rule r_init)
  have e1: "enqueue 10 SmartQueue_init 0x2323 2 True (write_arg (example_dp 0x2323)) 3 =
              (True, one_write)"
    by (simp add: one_write_def eval_defs)
  have e2: "enqueue 20 one_write 0x2323 2 True (write_arg (example_dp 0x2323)) 3 =
              (True, one_write)"
    by (simp add: one_write_def eval_defs)
  have s: "size_sq one_write < 64" "write_queue one_write = [example_write 0x2323 3 10]"
    by (simp_all add: one_write_def eval_defs)
  from write_dedup [OF r e1 e2] r e1 e2 s show ?thesis
    by simp
qed

text \<open>
  Against claim C1 as stated: on a fresh queue the same read (address 0x3306, owner
  tag 7) is enqueued twice in a row. The second call returns true, the queue is
  reachable, it holds the same triple twice and its size has grown by 2.
\<close>

theorem read_dedup_skipped:
  "reachable twice_read \<and>
   fst (enqueue 10 (enq_read 10 0x3306 7 SmartQueue_init) 0x3306 2 False
          (baseline_arg (example_dp 0x3306)) 7) \<and>
   size_sq twice_read = size_sq SmartQueue_init + 2 \<and>
   read_queue twice_read = [example_read 0x3306 7 10, example_read 0x3306 7 10] \<and>
   \<not> distinct (map req_key (read_queue twice_read))"
proof -
  have "reachable twice_read"
    unfolding twice_read_def enq_read_def by (intro reachable.intros)
  then show ?thesis
    by (simp add: twice_read_def eval_defs)
qed

section \<open>Selection\<close>

text \<open>
  Claim C2, as amended. In every reachable queue in which both classes are non-empty
  and no read is already in flight, \<open>get_next\<close> does not return a read: it returns
  nothing or the front of the write class, which is a write.
\<close>

theorem get_next_write_priority:
  assumes "reachable q" and "write_queue q \<noteq> []" and "read_queue q \<noteq> []"
    and "\<not> (has_current q \<and> \<not> current_is_write q)"
  shows "fst (get_next now q) = None \<or>
         (fst (get_next now q) = Some (hd (write_queue q)) \<and> is_write (hd (write_queue q)))"
proof -
  from assms(1) have "queue_inv q" by (rule reachable_inv)
  with assms(2) have w: "is_write (hd (write_queue q))"
    by (simp add: queue_inv_def)
  from assms(2) obtain a rest where q: "write_queue q = a # rest"
    by (cases "write_queue q") auto
  with w have "is_write a" by simp
  with q assms(4) show ?thesis
    by (auto simp: get_next_def get_current_ptr_def)
qed

text \<open>
  The theorem at a queue in which a write and a read wait: at time 200 the write is
  selected.
\<close>

theorem get_next_write_priority_witness:
  "reachable both_waiting \<and> write_queue both_waiting \<noteq> [] \<and> read_queue both_waiting \<noteq> [] \<and>
   \<not> has_current both_waiting \<and>
   fst (get_next 200 both_waiting) = Some (example_write 0x2323 3 100) \<and>
   hd (write_queue both_waiting) = example_write 0x2323 3 100 \<and>
   is_write (hd (write_queue both_waiting))"
proof -
  have r: "reachable both_waiting"
    unfolding both_waiting_def enq_read_def enq_write_def by (intro reachable.intros)
  have h: "write_queue both_waiting \<noteq> []" "read_queue both_waiting \<noteq> []"
      "\<not> (has_current both_waiting \<and> \<not> current_is_write both_waiting)"
    by (simp_all add: both_waiting_def eval_defs)
  have g: "fst (get_next 200 both_waiting) = Some (example_write 0x2323 3 100)"
      "hd (write_queue both_waiting) = example_write 0x2323 3 100" "\<not> has_current both_waiting"
    by (simp_all add: both_waiting_def eval_defs)
  from get_next_write_priority [OF r h, of 200] r h g show ?thesis
    by simp
qed

text \<open>
  Against claim C2 as stated: a read is selected at time 100, a write is enqueued at
  time 110, and at time 120 both classes are non-empty; \<open>get_next\<close> returns the read
  that is in flight.
\<close>

theorem get_next_returns_read_in_flight:
  "reachable read_in_flight \<and> write_queue read_in_flight \<noteq> [] \<and>
   read_queue read_in_flight \<noteq> [] \<and>
   fst (get_next 120 read_in_flight) = Some (example_read 0x3306 7 100) \<and>
   \<not> is_write (example_read 0x3306 7 100)"
proof -
  have "reachable read_in_flight"
    unfolding read_in_flight_def enq_read_def enq_write_def by (intro reachable.intros)
  then show ?thesis
    by (simp add: read_in_flight_def eval_defs)
qed

section \<open>Admission\<close>

text \<open>
  Claim C3. A queue that holds 64 or more operations in its two classes rejects
  every call of \<open>enqueue\<close> and stays as it is. Below 64, a call that is not merged
  as a duplicate appends the request, stamped with the current time, to the tail of
  its class and returns true. The operation in flight is an element of its class, so
  that the size of the two classes counts it.
\<close>

theorem enqueue_capacity_append:
  "(size_sq q \<ge> 64 \<longrightarrow> enqueue now q a l w arg c = (False, q)) \<and>
   (size_sq q < 64 \<and> \<not> ((w \<or> length (read_queue q) > 10) \<and> has_pending q a w c) \<longrightarrow>
      enqueue now q a l w arg c =
        (True,
         if w then q\<lparr>write_queue := write_queue q @
                 [\<lparr>address = a, length_bytes = l, is_write = w, callback_arg = arg,
                   component_type = c, enqueue_time = now\<rparr>]\<rparr>
         else q\<lparr>read_queue := read_queue q @
                 [\<lparr>address = a, length_bytes = l, is_write = w, callback_arg = arg,
                   component_type = c, enqueue_time = now\<rparr>]\<rparr>)) \<and>
   (\<forall>r. get_current_ptr q = Some r \<longrightarrow> r \<in> set (write_queue q) \<union> set (read_queue q))"
  by (auto simp: enqueue_def size_sq_def MAX_QUEUE_SIZE_def Let_def get_current_ptr_def
           split: if_splits list.splits)

text \<open>
  The theorem at a queue of 64 reads, which rejects a write, and at the queue with one
  write, to which a read is appended.
\<close>

theorem enqueue_capacity_append_witness:
  "size_sq full_queue \<ge> 64 \<and>
   enqueue 5 full_queue 0x2323 2 True (write_arg (example_dp 0x2323)) 3 = (False, full_queue) \<and>
   size_sq one_write < 64 \<and>
   \<not> has_pending one_write 0x0800 False 1 \<and>
   enqueue 5 one_write 0x0800 2 False (baseline_arg (example_dp 0x0800)) 1 =
     (True, one_write\<lparr>read_queue := read_queue one_write @ [example_read 0x0800 1 5]\<rparr>)"
proof -
  have f: "size_sq full_queue \<ge> 64"
    by (simp add: full_queue_def size_sq_def SmartQueue_init_def)
  have s: "size_sq one_write < 64" "\<not> has_pending one_write 0x0800 False 1"
    by (simp_all add: one_write_def eval_defs)
  from enqueue_capacity_append [where q = full_queue and now = 5 and a = "0x2323" and l = 2
        and w = True and arg = "write_arg (example_dp 0x2323)" and c = 3]
    enqueue_capacity_append [where q = one_write and now = 5 and a = "0x0800" and l = 2
        and w = False and arg = "baseline_arg (example_dp 0x0800)" and c = 1]
    f s
  show ?thesis
    by (simp add: example_read_def)
qed

section \<open>Timeout of the operation in flight\<close>

text \<open>
  Claim C4. In every reachable queue with an operation in flight (the in-flight flag
  is set and its class is non-empty, so that the front of the class is the operation
  in flight): when the age of that operation, the current time minus its enqueue
  time, exceeds 30000 ms, \<open>get_next\<close> returns nothing, removes the operation from the
  front of its class, clears the in-flight flag, records the current time as the
  time of the last completion and leaves the retry timer cleared.
\<close>

theorem get_next_timeout_releases:
  assumes "reachable q" and "has_current q" and "get_current_ptr q = Some r"
    and "now - enqueue_time r > 30000"
  shows "get_next now q =
           (None,
            q\<lparr>write_queue := (if current_is_write q then tl (write_queue q) else write_queue q),
              read_queue := (if current_is_write q then read_queue q else tl (read_queue q)),
              has_current := False, last_comm_time := now, last_retry_time := 0\<rparr>) \<and>
         r = hd (if current_is_write q then write_queue q else read_queue q)"
proof -
  from assms(1) have "queue_inv q" by (rule reachable_inv)
  with assms(2) have "last_retry_time q = 0" by (simp add: queue_inv_def)
  with assms(2-4) show ?thesis
    by (auto simp: get_next_def get_current_ptr_def release_current_def REQUEST_TIMEOUT_MS_def
                   Let_def
             split: list.splits if_splits)
qed

text \<open>
  The theorem at a read that was enqueued and selected at time 1000: at time 40000 it
  is released and nothing is returned.
\<close>

theorem get_next_timeout_releases_witness:
  "reachable selected_read \<and> has_current selected_read \<and>
   get_current_ptr selected_read = Some (example_read 0x0800 1 1000) \<and>
   (40000 :: 32 word) - enqueue_time (example_read 0x0800 1 1000) > 30000 \<and>
   fst (get_next 40000 selected_read) = None \<and>
   read_queue (snd (get_next 40000 selected_read)) = [] \<and>
   \<not> has_current (snd (get_next 40000 selected_read))"
proof -
  have r: "reachable selected_read"
    unfolding selected_read_def enq_read_def by (intro reachable.intros)
  have h: "has_current selected_read"
      "get_current_ptr selected_read = Some (example_read 0x0800 1 1000)"
      "(40000 :: 32 word) - enqueue_time (example_read 0x0800 1 1000) > 30000"
    by (simp_all add: selected_read_def eval_defs)
  have q: "\<not> current_is_write selected_read" "read_queue selected_read = [example_read 0x0800 1 1000]"
    by (simp_all add: selected_read_def eval_defs)
  from get_next_timeout_releases [OF r h] r h q show ?thesis
    by simp
qed

section \<open>Retry throttle and pacing\<close>

text \<open>
  Claim C5 fails when \<open>retry_current\<close> is called while the clock reads 0, the value
  that \<open>get_next\<close> takes for "no retry pending". The queue \<open>before_wrap\<close> is reachable
  and has a read in flight. \<open>retry_current\<close> at time 0 clears the in-flight flag and
  keeps the read at the front of its class, but \<open>get_next\<close> one millisecond later,
  well within the retry delay of 50 ms, returns that read again.
\<close>

theorem retry_at_zero_not_throttled:
  "reachable before_wrap \<and> has_current before_wrap \<and>
   get_current_ptr before_wrap = Some (example_read 0x0802 2 4294966296) \<and>
   read_queue (retry_current 0 before_wrap) = [example_read 0x0802 2 4294966296] \<and>
   \<not> has_current (retry_current 0 before_wrap) \<and>
   (1 :: 32 word) - 0 < RETRY_DELAY_MS \<and>
   fst (get_next 1 (retry_current 0 before_wrap)) = Some (example_read 0x0802 2 4294966296)"
proof -
  have "reachable before_wrap"
    unfolding before_wrap_def enq_read_def by (intro reachable.intros)
  then show ?thesis
    by (simp add: before_wrap_def eval_defs)
qed

text \<open>
  Claim C6. When no retry throttle is active, nothing is selected and less than 50 ms
  have passed since the time recorded by the last \<open>release_current\<close>, \<open>get_next\<close>
  returns nothing and leaves the queue as it is, whatever the two classes hold.
\<close>

theorem get_next_pacing:
  assumes "\<not> (last_retry_time q > 0 \<and> now - last_retry_time q < RETRY_DELAY_MS)"
    and "\<not> has_current q" and "now - last_comm_time q < 50"
  shows "get_next now q = (None, q)"
  using assms by (simp add: get_next_def INTER_COMM_DELAY_MS_def)

text \<open>
  The theorem at a queue whose first read was released at time 5000 while a second
  read waits: at time 5020 nothing is returned.
\<close>

theorem get_next_pacing_witness:
  "\<not> (last_retry_time just_released > 0 \<and> 5020 - last_retry_time just_released < RETRY_DELAY_MS) \<and>
   \<not> has_current just_released \<and>
   5020 - last_comm_time just_released < 50 \<and>
   read_queue just_released = [example_read 0x0802 2 1000] \<and>
   get_next 5020 just_released = (None, just_released)"
proof -
  have h: "\<not> (last_retry_time just_released > 0 \<and>
              5020 - last_retry_time just_released < RETRY_DELAY_MS)"
      "\<not> has_current just_released" "5020 - last_comm_time just_released < 50"
    by (simp_all add: just_released_def eval_defs)
  have q: "read_queue just_released = [example_read 0x0802 2 1000]"
    by (simp add: just_released_def eval_defs)
  from get_next_pacing [OF h] h q show ?thesis
    by simp
qed

section \<open>Eviction of stale operations\<close>

text \<open>
  Claim C7, as amended. \<open>cleanup_stale\<close> changes neither the flags nor the time
  stamps. Of the elements of either class that are not in flight it keeps, in their
  order, exactly those whose age, the current time minus the enqueue time, is at most
  30000 ms; the queue that results holds them behind at most one further element at
  the front, and nothing is said here about whether that element, the one in flight,
  stays. On a clock that has not wrapped since an operation was enqueued at time T,
  an age of at most 30000 ms means a current time of at most T + 30000: a waiting
  operation is evicted by every call later than T + 30000 and by no call at or before
  T + 30000.
\<close>

theorem cleanup_stale_waiting:
  "has_current (cleanup_stale now q) = has_current q \<and>
   current_is_write (cleanup_stale now q) = current_is_write q \<and>
   last_comm_time (cleanup_stale now q) = last_comm_time q \<and>
   last_retry_time (cleanup_stale now q) = last_retry_time q \<and>
   (\<not> (has_current q \<and> current_is_write q) \<longrightarrow>
      write_queue (cleanup_stale now q) =
        filter (\<lambda>r. now - enqueue_time r \<le> 30000) (write_queue q)) \<and>
   (\<not> (has_current q \<and> \<not> current_is_write q) \<longrightarrow>
      read_queue (cleanup_stale now q) =
        filter (\<lambda>r. now - enqueue_time r \<le> 30000) (read_queue q)) \<and>
   (has_current q \<and> current_is_write q \<longrightarrow>
      (\<exists>pre. length pre \<le> 1 \<and> write_queue (cleanup_stale now q) =
         pre @ filter (\<lambda>r. now - enqueue_time r \<le> 30000) (tl (write_queue q)))) \<and>
   (has_current q \<and> \<not> current_is_write q \<longrightarrow>
      (\<exists>pre. length pre \<le> 1 \<and> read_queue (cleanup_stale now q) =
         pre @ filter (\<lambda>r. now - enqueue_time r \<le> 30000) (tl (read_queue q)))) \<and>
   (\<forall>r \<in> set (write_queue q) \<union> set (read_queue q).
      unat (enqueue_time r) \<le> unat now \<longrightarrow>
        (now - enqueue_time r \<le> 30000 \<longleftrightarrow> unat now \<le> unat (enqueue_time r) + 30000))"
proof -
  have split: "\<exists>pre. length pre \<le> 1 \<and> filter P xs = pre @ filter P (tl xs)"
    for P :: "QueuedRequest \<Rightarrow> bool" and xs
  proof (cases xs)
    case Nil
    then show ?thesis by simp
  next
    case (Cons x rest)
    then have "filter P xs = filter P [x] @ filter P (tl xs)" by simp
    moreover have "length (filter P [x]) \<le> 1" by simp
    ultimately show ?thesis by blast
  qed
  show ?thesis
    using split age_no_wrap
    by (simp add: cleanup_stale_def cleanup_filter REQUEST_TIMEOUT_MS_def)
qed

text \<open>
  The theorem at two waiting reads, enqueued at times 1000 and 20000: a call at time
  31000 keeps both, a call at time 31001 evicts the first one only.
\<close>

theorem cleanup_stale_waiting_witness:
  "\<not> has_current two_waiting \<and>
   read_queue two_waiting = [example_read 0x0800 1 1000, example_read 0x0802 2 20000] \<and>
   read_queue (cleanup_stale 31000 two_waiting) =
     [example_read 0x0800 1 1000, example_read 0x0802 2 20000] \<and>
   read_queue (cleanup_stale 31001 two_waiting) = [example_read 0x0802 2 20000] \<and>
   write_queue (cleanup_stale 31001 two_waiting) = [] \<and>
   has_current (cleanup_stale 31001 two_waiting) = has_current two_waiting"
proof -
  have h: "\<not> has_current two_waiting"
      "read_queue two_waiting = [example_read 0x0800 1 1000, example_read 0x0802 2 20000]"
      "write_queue two_waiting = []"
    by (simp_all add: two_waiting_def eval_defs)
  have t: "enqueue_time (example_read 0x0800 1 1000) = 1000"
      "enqueue_time (example_read 0x0802 2 20000) = 20000"
    by (simp_all add: example_read_def)
  from cleanup_stale_waiting [of 31000 two_waiting] cleanup_stale_waiting [of 31001 two_waiting]
    h t
  show ?thesis
    by simp
qed

text \<open>
  Against claim C7 as stated. A waiting read enqueued at time 1000 is still there
  after a call at time 31000, which is the enqueue time plus the timeout. And a read
  that was enqueued and selected at time 1000 and is in flight is evicted by a call at
  time 40000, after which the in-flight flag is still set.
\<close>

theorem cleanup_stale_boundary_and_in_flight:
  "read_queue waiting_read = [example_read 0x0800 1 1000] \<and>
   read_queue (cleanup_stale 31000 waiting_read) = [example_read 0x0800 1 1000] \<and>
   has_current selected_read \<and> \<not> current_is_write selected_read \<and>
   get_current_ptr selected_read = Some (example_read 0x0800 1 1000) \<and>
   read_queue (cleanup_stale 40000 selected_read) = [] \<and>
   has_current (cleanup_stale 40000 selected_read)"
  by (simp add: waiting_read_def selected_read_def eval_defs)

section \<open>The batched producer\<close>

text \<open>
  Claim C8, as amended. There are 35 registered points, the cursor is 0, and the
  queue has room for the batch once the writes of the period and their verification
  reads are enqueued: at most 44 operations before the reads of period 1 and at most
  49 before those of period 2. The producer step of period 1 makes exactly the calls
  that enqueue a baseline read for the points 0 to 19, in this order, every one of
  them returns true, and the cursor becomes 20. A call returns true when the read is
  appended and also when it is merged with a pending read for the same address and
  owner tag: a merged read counts for the batch although nothing is stored for it.
  Whatever queue the dispatcher leaves behind, as long as it has the room named
  above: the producer step of period 2 makes exactly the calls for the points 20 to
  34, every one of them returns true, the cursor becomes 0 (and on every tenth pass
  over the end of the list the stale operations are evicted). The points of the two
  periods, one after the other, are the registered points: none twice and none left
  out.
\<close>

theorem batched_producer_35:
  assumes "length (datapoints v) = 35" and "last_datapoint_index v = 0"
    and "size_sq (enqueue_writes t1 (datapoints v) (smart_queue v)) + 20 \<le> 64"
    and "size_sq (enqueue_writes t2 (datapoints v) q') + 15 \<le> 64"
  shows "last_datapoint_index (update t1 v) = 20 \<and>
         spec_baseline_reads t1 (map ((!) (datapoints v)) [0 ..< 20])
             (enqueue_writes t1 (datapoints v) (smart_queue v)) =
           (replicate 20 True, smart_queue (update t1 v)) \<and>
         last_datapoint_index (update t2 ((update t1 v)\<lparr>smart_queue := q'\<rparr>)) = 0 \<and>
         fst (spec_baseline_reads t2 (map ((!) (datapoints v)) [20 ..< 35])
               (enqueue_writes t2 (datapoints v) q')) = replicate 15 True \<and>
         smart_queue (update t2 ((update t1 v)\<lparr>smart_queue := q'\<rparr>)) =
           (if cleanup_counter v + 1 \<ge> 10
            then cleanup_stale t2
                   (snd (spec_baseline_reads t2 (map ((!) (datapoints v)) [20 ..< 35])
                           (enqueue_writes t2 (datapoints v) q')))
            else snd (spec_baseline_reads t2 (map ((!) (datapoints v)) [20 ..< 35])
                        (enqueue_writes t2 (datapoints v) q'))) \<and>
         map ((!) (datapoints v)) [0 ..< 20] @ map ((!) (datapoints v)) [20 ..< 35] =
           datapoints v"
proof -
  let ?dps = "datapoints v"
  let ?w1 = "enqueue_writes t1 ?dps (smart_queue v)"
  let ?w2 = "enqueue_writes t2 ?dps q'"
  have r1: "enqueue_reads t1 ?dps 0 0 ?w1 =
              (snd (spec_baseline_reads t1 (map ((!) ?dps) [0 ..< 0 + 20]) ?w1), Some (0 + 20))"
    using assms(1,3) by (intro enqueue_reads_batch) (simp_all add: BATCH_SIZE_def)
  have u1: "update t1 v =
              v\<lparr>smart_queue := snd (spec_baseline_reads t1 (map ((!) ?dps) [0 ..< 20]) ?w1),
                last_datapoint_index := 20\<rparr>"
    using r1 assms(2) by (simp add: update_def Let_def del: upt_rec_numeral)
  have ok1: "fst (spec_baseline_reads t1 (map ((!) ?dps) [0 ..< 20]) ?w1) = replicate 20 True"
    using spec_baseline_reads_room [of ?w1 "map ((!) ?dps) [0 ..< 20]" t1] assms(3)
    by (simp del: upt_rec_numeral)
  have d2: "drop 20 ?dps = map ((!) ?dps) [20 ..< 35]"
    using assms(1) by (metis drop_map map_nth drop_upt add.commute add_0)
  have r2: "enqueue_reads t2 ?dps 20 0 ?w2 =
              (snd (spec_baseline_reads t2 (drop 20 ?dps) ?w2), None)"
    using assms(1,4) by (intro enqueue_reads_tail [where k = 15]) (simp_all add: BATCH_SIZE_def)
  have ok2: "fst (spec_baseline_reads t2 (map ((!) ?dps) [20 ..< 35]) ?w2) = replicate 15 True"
    using spec_baseline_reads_room [of ?w2 "map ((!) ?dps) [20 ..< 35]" t2] assms(4)
    by (simp del: upt_rec_numeral)
  have u2: "smart_queue (update t2 ((update t1 v)\<lparr>smart_queue := q'\<rparr>)) =
           (if cleanup_counter v + 1 \<ge> 10
            then cleanup_stale t2 (snd (spec_baseline_reads t2 (map ((!) ?dps) [20 ..< 35]) ?w2))
            else snd (spec_baseline_reads t2 (map ((!) ?dps) [20 ..< 35]) ?w2))"
       "last_datapoint_index (update t2 ((update t1 v)\<lparr>smart_queue := q'\<rparr>)) = 0"
  proof -
    define v2 where "v2 = (update t1 v)\<lparr>smart_queue := q'\<rparr>"
    have f: "datapoints v2 = ?dps" "last_datapoint_index v2 = 20" "smart_queue v2 = q'"
        "cleanup_counter v2 = cleanup_counter v"
      by (simp_all add: v2_def u1)
    have "update t2 v2 =
            (if cleanup_counter v + 1 \<ge> 10
             then v2\<lparr>smart_queue :=
                       cleanup_stale t2 (snd (spec_baseline_reads t2 (drop 20 ?dps) ?w2)),
                     cleanup_counter := 0, last_datapoint_index := 0\<rparr>
             else v2\<lparr>smart_queue := snd (spec_baseline_reads t2 (drop 20 ?dps) ?w2),
                     cleanup_counter := cleanup_counter v + 1, last_datapoint_index := 0\<rparr>)"
      unfolding update_def f Let_def r2 by simp
    then show "smart_queue (update t2 ((update t1 v)\<lparr>smart_queue := q'\<rparr>)) =
           (if cleanup_counter v + 1 \<ge> 10
            then cleanup_stale t2 (snd (spec_baseline_reads t2 (map ((!) ?dps) [20 ..< 35]) ?w2))
            else snd (spec_baseline_reads t2 (map ((!) ?dps) [20 ..< 35]) ?w2))"
       "last_datapoint_index (update t2 ((update t1 v)\<lparr>smart_queue := q'\<rparr>)) = 0"
      unfolding v2_def [symmetric] d2 [symmetric] by simp_all
  qed
  have all: "map ((!) ?dps) [0 ..< 20] @ map ((!) ?dps) [20 ..< 35] = ?dps"
  proof -
    have "map ((!) ?dps) [0 ..< 20] @ map ((!) ?dps) [20 ..< 35] =
            map ((!) ?dps) ([0 ..< 20] @ [20 ..< 35])"
      by (simp del: upt_rec_numeral)
    also have "[0 ..< 20] @ [20 ..< 35] = [0 ..< (35::nat)]"
      using upt_add_eq_append [of 0 20 15] by (simp del: upt_rec_numeral)
    also have "map ((!) ?dps) [0 ..< 35] = ?dps"
      using map_nth [of ?dps] by (simp only: assms(1))
    finally show ?thesis .
  qed
  from u1 ok1 u2 ok2 all show ?thesis
    by (simp add: prod_eq_iff del: upt_rec_numeral)
qed

text \<open>
  The theorem at a fresh component with 35 unmodified points, with the second period
  following the first one on the queue that the first one left: after period 1 the
  cursor is 20 and the read class holds the reads for the first 20 addresses; after
  period 2 the cursor is 0 and the read class holds the reads for all 35 addresses,
  each of them once.
\<close>

theorem batched_producer_35_witness:
  "length (datapoints fresh35) = 35 \<and> last_datapoint_index fresh35 = 0 \<and>
   size_sq (enqueue_writes 1000 (datapoints fresh35) (smart_queue fresh35)) + 20 \<le> 64 \<and>
   size_sq (enqueue_writes 61000 (datapoints fresh35) (smart_queue (update 1000 fresh35))) + 15
     \<le> 64 \<and>
   last_datapoint_index (update 1000 fresh35) = 20 \<and>
   map address (read_queue (smart_queue (update 1000 fresh35))) =
     map (\<lambda>k. 0x0800 + 2 * of_nat k) [0 ..< 20] \<and>
   last_datapoint_index (update 61000 (update 1000 fresh35)) = 0 \<and>
   map address (read_queue (smart_queue (update 61000 (update 1000 fresh35)))) =
     map (\<lambda>k. 0x0800 + 2 * of_nat k) [0 ..< 35]"
proof -
  have h1: "length (datapoints fresh35) = 35"
    by (simp add: fresh35_def points35_def)
  have h2: "last_datapoint_index fresh35 = 0"
    by (simp add: fresh35_def)
  have h3: "size_sq (enqueue_writes 1000 (datapoints fresh35) (smart_queue fresh35)) + 20 \<le> 64"
    by code_simp
  have h4: "size_sq (enqueue_writes 61000 (datapoints fresh35)
              (smart_queue (update 1000 fresh35))) + 15 \<le> 64"
    by code_simp
  have same: "(update 1000 fresh35)\<lparr>smart_queue := smart_queue (update 1000 fresh35)\<rparr> =
                update 1000 fresh35"
    by simp
  from batched_producer_35 [OF h1 h2 h3 h4]
  have c: "last_datapoint_index (update 1000 fresh35) = 20"
      "last_datapoint_index (update 61000 (update 1000 fresh35)) = 0"
    unfolding same by blast+
  have a1: "map address (read_queue (smart_queue (update 1000 fresh35))) =
              map (\<lambda>k. 0x0800 + 2 * of_nat k) [0 ..< 20]"
    by code_simp
  have a2: "map address (read_queue (smart_queue (update 61000 (update 1000 fresh35)))) =
              map (\<lambda>k. 0x0800 + 2 * of_nat k) [0 ..< 35]"
    by code_simp
  from h1 h2 h3 h4 c a1 a2 show ?thesis
    by blast
qed

text \<open>
  Against claim C8 as stated. On a fresh component whose 35 points are all modified,
  the first loop of the step fills the queue with 32 writes and 32 verification
  reads; every baseline read is rejected, the read class holds verification reads
  only, and the cursor is 0 after period 1, not 20. On a fresh component in which the
  points 0 to 19 are modified, the cursor is 20 after period 1, but every baseline
  read was merged with the verification read of its point: the read class holds the
  20 verification reads and no baseline read.
\<close>

theorem batched_producer_store_full:
  "length (datapoints all_modified35) = 35 \<and>
   last_datapoint_index all_modified35 = 0 \<and>
   smart_queue all_modified35 = SmartQueue_init \<and>
   last_datapoint_index (update 1000 all_modified35) = 0 \<and>
   write_count (smart_queue (update 1000 all_modified35)) = 32 \<and>
   read_count (smart_queue (update 1000 all_modified35)) = 32 \<and>
   list_all (\<lambda>r. map_option cb_d (callback_arg r) = Some (Some [1, 0]))
     (read_queue (smart_queue (update 1000 all_modified35))) \<and>
   length (datapoints first20_modified35) = 35 \<and>
   last_datapoint_index first20_modified35 = 0 \<and>
   smart_queue first20_modified35 = SmartQueue_init \<and>
   last_datapoint_index (update 1000 first20_modified35) = 20 \<and>
   read_count (smart_queue (update 1000 first20_modified35)) = 20 \<and>
   list_all (\<lambda>r. map_option cb_d (callback_arg r) = Some (Some [1, 0]))
     (read_queue (smart_queue (update 1000 first20_modified35)))"
proof -
  have i1: "length (datapoints all_modified35) = 35" "last_datapoint_index all_modified35 = 0"
      "smart_queue all_modified35 = SmartQueue_init"
    by (simp_all add: all_modified35_def)
  have i2: "length (datapoints first20_modified35) = 35"
      "last_datapoint_index first20_modified35 = 0"
      "smart_queue first20_modified35 = SmartQueue_init"
    by (simp_all add: first20_modified35_def)
  have "let u = update 1000 all_modified35 in
          last_datapoint_index u = 0 \<and> write_count (smart_queue u) = 32 \<and>
          read_count (smart_queue u) = 32 \<and>
          list_all (\<lambda>r. map_option cb_d (callback_arg r) = Some (Some [1, 0]))
            (read_queue (smart_queue u))"
    by code_simp
  then have f: "last_datapoint_index (update 1000 all_modified35) = 0"
      "write_count (smart_queue (update 1000 all_modified35)) = 32"
      "read_count (smart_queue (update 1000 all_modified35)) = 32"
      "list_all (\<lambda>r. map_option cb_d (callback_arg r) = Some (Some [1, 0]))
         (read_queue (smart_queue (update 1000 all_modified35)))"
    unfolding Let_def by blast+
  have "let u = update 1000 first20_modified35 in
          last_datapoint_index u = 20 \<and> read_count (smart_queue u) = 20 \<and>
          list_all (\<lambda>r. map_option cb_d (callback_arg r) = Some (Some [1, 0]))
            (read_queue (smart_queue u))"
    by code_simp
  then have m: "last_datapoint_index (update 1000 first20_modified35) = 20"
      "read_count (smart_queue (update 1000 first20_modified35)) = 20"
      "list_all (\<lambda>r. map_option cb_d (callback_arg r) = Some (Some [1, 0]))
         (read_queue (smart_queue (update 1000 first20_modified35)))"
    unfolding Let_def by blast+
  from i1 i2 f m show ?thesis
    by blast
qed

section \<open>The dispatcher and a missing callback argument\<close>

text \<open>
  Claim C9. In a dispatcher step in which the transport is ready and \<open>get_next\<close>
  returns an operation without a callback argument, the transport is only advanced by
  its own \<open>loop()\<close>: neither \<open>write\<close> nor \<open>read\<close> is called on it. The operation is the
  front of its class and is removed from it, the in-flight flag is cleared, the
  current time is recorded as the time of the last completion, and the retry timer
  is not started, so that the operation is dropped and not retried.
\<close>

theorem loop_malformed_context:
  assumes "ol_is_ready ol (ol_loop ol t)"
    and "get_next now (smart_queue v) = (Some req, q1)"
    and "callback_arg req = None"
  shows "loop ol now (t, v) =
           (ol_loop ol t,
            v\<lparr>smart_queue :=
                 \<lparr>write_queue = (if current_is_write q1 then tl (write_queue (smart_queue v))
                                  else write_queue (smart_queue v)),
                  read_queue = (if current_is_write q1 then read_queue (smart_queue v)
                                 else tl (read_queue (smart_queue v))),
                  has_current = False, current_is_write = current_is_write q1,
                  last_comm_time = now, last_retry_time = 0\<rparr>\<rparr>) \<and>
         req = hd (if current_is_write q1 then write_queue (smart_queue v)
                   else read_queue (smart_queue v))"
proof -
  from assms(2) have g: "has_current q1" "write_queue q1 = write_queue (smart_queue v)"
      "read_queue q1 = read_queue (smart_queue v)"
      "if current_is_write q1
       then write_queue (smart_queue v) \<noteq> [] \<and> req = hd (write_queue (smart_queue v))
       else read_queue (smart_queue v) \<noteq> [] \<and> req = hd (read_queue (smart_queue v))"
    using get_next_Some by blast+
  have "release_current now q1 =
          \<lparr>write_queue = (if current_is_write q1 then tl (write_queue (smart_queue v))
                           else write_queue (smart_queue v)),
           read_queue = (if current_is_write q1 then read_queue (smart_queue v)
                          else tl (read_queue (smart_queue v))),
           has_current = False, current_is_write = current_is_write q1,
           last_comm_time = now, last_retry_time = 0\<rparr>"
    using g by (cases q1) (auto simp: release_current_def Let_def)
  with assms g(4) show ?thesis
    by (simp add: loop_def Let_def split: if_splits)
qed

text \<open>
  The theorem at a ready transport and a queue whose only element is a read without
  a callback argument: after the step the transport has received nothing and the
  queue is empty.
\<close>

theorem loop_malformed_context_witness:
  "ol_is_ready ready_transport (ol_loop ready_transport 0) \<and>
   get_next 1000 (smart_queue null_context) =
     (Some null_request, (smart_queue null_context)\<lparr>has_current := True\<rparr>) \<and>
   callback_arg null_request = None \<and>
   fst (loop ready_transport 1000 (0, null_context)) = 0 \<and>
   read_queue (smart_queue (snd (loop ready_transport 1000 (0, null_context)))) = [] \<and>
   \<not> has_current (smart_queue (snd (loop ready_transport 1000 (0, null_context))))"
proof -
  have h: "ol_is_ready ready_transport (ol_loop ready_transport 0)"
      "get_next 1000 (smart_queue null_context) =
         (Some null_request, (smart_queue null_context)\<lparr>has_current := True\<rparr>)"
      "callback_arg null_request = None"
    by (simp_all add: ready_transport_def null_context_def null_request_def eval_defs)
  have q: "read_queue (smart_queue null_context) = [null_request]"
      "\<not> current_is_write (smart_queue null_context)"
      "ol_loop ready_transport 0 = 0"
    by (simp_all add: ready_transport_def null_context_def null_request_def eval_defs)
  from loop_malformed_context [OF h] h q show ?thesis
    by simp
qed

section \<open>Frame properties of retry and release\<close>

text \<open>
  Claim C10. When no operation is in flight, \<open>retry_current\<close> and \<open>release_current\<close>
  return the queue they were given: both class queues, the in-flight flag, the class
  flag, the pacing time stamp and the retry time stamp are all unchanged.
\<close>

theorem retry_release_idle_noop:
  "\<not> has_current q \<Longrightarrow> retry_current now q = q \<and> release_current now' q = q"
  by (simp add: retry_current_def release_current_def)

text \<open>The theorem at a fresh queue.\<close>

theorem retry_release_idle_noop_witness:
  "\<not> has_current SmartQueue_init \<and>
   retry_current 7 SmartQueue_init = SmartQueue_init \<and>
   release_current 9 SmartQueue_init = SmartQueue_init"
  using retry_release_idle_noop [of SmartQueue_init 7 9]
  by (simp add: SmartQueue_init_def)

end
